theory Spec2Isabelle
  imports Main "HOL-Library.Finite_Map"
begin

section \<open>The compiled-pattern cache of go-sqlite-regexp\<close>

text \<open>
  The package keeps one process-wide map from pattern text to compiled regular
  expression (\<^verbatim>\<open>regexpCache.cache\<close>, a \<^verbatim>\<open>map[string]*regexp.Regexp\<close>) and
  three operations on it: \<^verbatim>\<open>regexpFunction\<close>, \<^verbatim>\<open>ClearRegexpCache\<close> and
  \<^verbatim>\<open>GetCacheSize\<close>.

  Go's standard library is not part of the package.  Its two entry points used here are
  parameters of the model:
  \<^item> \<open>compile\<close> stands for \<^verbatim>\<open>regexp.Compile\<close>: a pattern yields either an error
    (\<open>Inl\<close>) or the compiled expression (\<open>Inr\<close>);
  \<^item> \<open>matchString\<close> stands for \<^verbatim>\<open>(*Regexp).MatchString\<close>.
  Both are functions of their arguments alone, as the library's are.
\<close>

subsection \<open>Data\<close>

text \<open>
  A \<^verbatim>\<open>*regexp.Regexp\<close>: the address of an object that is never written after its
  creation, together with the object found there.  Two compilations of one pattern give
  equal objects at different addresses.
\<close>

record 'r ptr =
  addr :: nat
  obj :: 'r

text \<open>
  The shared state: the map of \<^verbatim>\<open>regexpCache\<close>, and the next unused address,
  from which \<^verbatim>\<open>regexp.Compile\<close> takes the address of each object it creates.
\<close>

record 'r state =
  cache :: "(string, 'r ptr) fmap"
  fresh :: nat

text \<open>The package-level initialiser: \<^verbatim>\<open>cache: make(map[string]*regexp.Regexp)\<close>.\<close>

definition init_state :: "'r state" where
  "init_state = \<lparr>cache = fmempty, fresh = 0\<rparr>"

subsection \<open>Operations\<close>

text \<open>
  \<^verbatim>\<open>regexpFunction(pattern, text)\<close>.  The result is the pair \<^verbatim>\<open>(int, error)\<close>
  (\<open>None\<close> is \<^verbatim>\<open>nil\<close>) and the state after the call.
\<close>

definition regexpFunction ::
  "(string \<Rightarrow> 'e + 'r) \<Rightarrow> ('r \<Rightarrow> string \<Rightarrow> bool) \<Rightarrow> string \<Rightarrow> string \<Rightarrow> 'r state
     \<Rightarrow> (int \<times> 'e option) \<times> 'r state" where
  "regexpFunction compile matchString pattern text s =
     (case fmlookup (cache s) pattern of
        Some re \<Rightarrow>
          (if matchString (obj re) text then ((1, None), s) else ((0, None), s))
      | None \<Rightarrow>
          (case compile pattern of
             Inl err \<Rightarrow> ((0, Some err), s)
           | Inr r \<Rightarrow>
               (let re = \<lparr>addr = fresh s, obj = r\<rparr>;
                    s' = s\<lparr>cache := fmupd pattern re (cache s), fresh := Suc (fresh s)\<rparr>
                in if matchString (obj re) text then ((1, None), s') else ((0, None), s'))))"

text \<open>
  The first part of \<^verbatim>\<open>regexpFunction\<close>, up to the end of the \<^verbatim>\<open>if !exists\<close>
  block: look the pattern up, compile and store it when it is absent.  It yields the
  error of the early return, or the value of \<^verbatim>\<open>re\<close> and the state at that point.
\<close>

definition getOrCompile ::
  "(string \<Rightarrow> 'e + 'r) \<Rightarrow> string \<Rightarrow> 'r state \<Rightarrow> 'e + ('r ptr \<times> 'r state)" where
  "getOrCompile compile pattern s =
     (case fmlookup (cache s) pattern of
        Some re \<Rightarrow> Inr (re, s)
      | None \<Rightarrow>
          (case compile pattern of
             Inl err \<Rightarrow> Inl err
           | Inr r \<Rightarrow>
               (let re = \<lparr>addr = fresh s, obj = r\<rparr>
                in Inr (re, s\<lparr>cache := fmupd pattern re (cache s), fresh := Suc (fresh s)\<rparr>))))"

text \<open>\<^verbatim>\<open>ClearRegexpCache()\<close>: the map is replaced by a new, empty one.\<close>

definition ClearRegexpCache :: "'r state \<Rightarrow> 'r state" where
  "ClearRegexpCache s = s\<lparr>cache := fmempty\<rparr>"

text \<open>\<^verbatim>\<open>GetCacheSize()\<close>: \<^verbatim>\<open>len(regexpCache.cache)\<close>.\<close>

definition GetCacheSize :: "'r state \<Rightarrow> nat" where
  "GetCacheSize s = fcard (fmdom (cache s))"

subsection \<open>Sequences of calls\<close>

datatype call = Call_regexpFunction string string | Call_ClearRegexpCache

fun run_call ::
  "(string \<Rightarrow> 'e + 'r) \<Rightarrow> ('r \<Rightarrow> string \<Rightarrow> bool) \<Rightarrow> call \<Rightarrow> 'r state \<Rightarrow> 'r state" where
  "run_call compile matchString (Call_regexpFunction pattern text) s =
     snd (regexpFunction compile matchString pattern text s)"
| "run_call compile matchString Call_ClearRegexpCache s = ClearRegexpCache s"

text \<open>The state after a sequence of calls, made one after the other from state \<open>s\<close>.\<close>

fun run_calls ::
  "(string \<Rightarrow> 'e + 'r) \<Rightarrow> ('r \<Rightarrow> string \<Rightarrow> bool) \<Rightarrow> call list \<Rightarrow> 'r state \<Rightarrow> 'r state" where
  "run_calls compile matchString [] s = s"
| "run_calls compile matchString (c # cs) s =
     run_calls compile matchString cs (run_call compile matchString c s)"

subsection \<open>Concurrent calls\<close>

text \<open>
  \<^verbatim>\<open>regexpFunction\<close> may run on several threads at once.  It touches the shared map
  in two critical sections, the read under \<^verbatim>\<open>RLock\<close> and the write under
  \<^verbatim>\<open>Lock\<close>; between them the thread works on its own variables.  A thread inside a
  call is therefore at one of the following points, holding the variables that are live
  there.
\<close>

datatype ('e, 'r) thread =
    At_lookup string string
  | At_compile string string
  | At_store string string "'r ptr"
  | At_match "'r ptr" string
  | Returned int "'e option"

text \<open>
  One step of a thread, from one point of \<^verbatim>\<open>regexpFunction\<close> to the next:
  \<^item> \<open>At_lookup pattern text\<close>: the read of \<^verbatim>\<open>regexpCache.cache[pattern]\<close> under
    the read lock, then the test of \<^verbatim>\<open>exists\<close>;
  \<^item> \<open>At_compile pattern text\<close>: \<^verbatim>\<open>regexp.Compile(pattern)\<close>, outside any lock,
    with the early return on an error;
  \<^item> \<open>At_store pattern text re\<close>: the assignment
    \<^verbatim>\<open>regexpCache.cache[pattern] = re\<close> under the write lock;
  \<^item> \<open>At_match re text\<close>: \<^verbatim>\<open>re.MatchString(text)\<close> and the return.
\<close>

fun thread_step ::
  "(string \<Rightarrow> 'e + 'r) \<Rightarrow> ('r \<Rightarrow> string \<Rightarrow> bool) \<Rightarrow> ('e, 'r) thread \<Rightarrow> 'r state
     \<Rightarrow> ('e, 'r) thread \<times> 'r state" where
  "thread_step compile matchString (At_lookup pattern text) s =
     (case fmlookup (cache s) pattern of
        Some re \<Rightarrow> (At_match re text, s)
      | None \<Rightarrow> (At_compile pattern text, s))"
| "thread_step compile matchString (At_compile pattern text) s =
     (case compile pattern of
        Inl err \<Rightarrow> (Returned 0 (Some err), s)
      | Inr r \<Rightarrow> (At_store pattern text \<lparr>addr = fresh s, obj = r\<rparr>, s\<lparr>fresh := Suc (fresh s)\<rparr>))"
| "thread_step compile matchString (At_store pattern text re) s =
     (At_match re text, s\<lparr>cache := fmupd pattern re (cache s)\<rparr>)"
| "thread_step compile matchString (At_match re text) s =
     (if matchString (obj re) text then (Returned 1 None, s) else (Returned 0 None, s))"
| "thread_step compile matchString (Returned n err) s = (Returned n err, s)"

text \<open>The threads of the process and the state they share.\<close>

record ('e, 'r) config =
  threads :: "('e, 'r) thread list"
  shared :: "'r state"

text \<open>Thread \<open>i\<close> takes its next step; the other threads stay where they are.\<close>

definition step ::
  "(string \<Rightarrow> 'e + 'r) \<Rightarrow> ('r \<Rightarrow> string \<Rightarrow> bool) \<Rightarrow> nat \<Rightarrow> ('e, 'r) config \<Rightarrow> ('e, 'r) config" where
  "step compile matchString i c =
     (if i < length (threads c)
      then (case thread_step compile matchString (threads c ! i) (shared c) of
              (t', s') \<Rightarrow> \<lparr>threads = (threads c)[i := t'], shared = s'\<rparr>)
      else c)"

text \<open>A schedule names the thread that moves at each step.\<close>

fun run_schedule ::
  "(string \<Rightarrow> 'e + 'r) \<Rightarrow> ('r \<Rightarrow> string \<Rightarrow> bool) \<Rightarrow> nat list \<Rightarrow> ('e, 'r) config
     \<Rightarrow> ('e, 'r) config" where
  "run_schedule compile matchString [] c = c"
| "run_schedule compile matchString (i # is) c =
     run_schedule compile matchString is (step compile matchString i c)"

subsection \<open>A reference without a cache\<close>

text \<open>
  The predicate as a function of its two arguments alone: the pattern is compiled anew on
  every call and nothing is remembered.  This is the reference that the cached
  implementation is compared with.
\<close>

definition regexpFunction_uncached ::
  "(string \<Rightarrow> 'e + 'r) \<Rightarrow> ('r \<Rightarrow> string \<Rightarrow> bool) \<Rightarrow> string \<Rightarrow> string \<Rightarrow> int \<times> 'e option" where
  "regexpFunction_uncached compile matchString pattern text =
     (case compile pattern of
        Inl err \<Rightarrow> (0, Some err)
      | Inr r \<Rightarrow> (if matchString r text then (1, None) else (0, None)))"

subsection \<open>The invariant of the cache\<close>

text \<open>
  An entry of the map holds the compiled form of its own key, at an address that has been
  handed out.  The initial state has the property and the operations keep it.
\<close>

definition cache_ok :: "(string \<Rightarrow> 'e + 'r) \<Rightarrow> 'r state \<Rightarrow> bool" where
  "cache_ok compile s =
     fmpred (\<lambda>p re. compile p = Inr (obj re) \<and> addr re < fresh s) (cache s)"

subsection \<open>An instance of the library, for evaluation\<close>

text \<open>
  The theorems below hold for every \<open>compile\<close> and \<open>matchString\<close>.  To evaluate them at
  concrete inputs, the following instance is used.  It agrees with Go's
  \<^verbatim>\<open>regexp\<close> on the inputs evaluated here: the pattern \<^verbatim>\<open>[\<close> is rejected, and a
  pattern of plain letters matches the texts that contain it.
\<close>

fun starts_with :: "string \<Rightarrow> string \<Rightarrow> bool" where
  "starts_with [] t = True"
| "starts_with (c # cs) [] = False"
| "starts_with (c # cs) (d # ds) = (c = d \<and> starts_with cs ds)"

fun contains :: "string \<Rightarrow> string \<Rightarrow> bool" where
  "contains p [] = (p = [])"
| "contains p (d # ds) = (starts_with p (d # ds) \<or> contains p ds)"

definition sample_compile :: "string \<Rightarrow> string + string" where
  "sample_compile p = (if p = ''['' then Inl ''missing closing ]'' else Inr p)"

definition sample_match :: "string \<Rightarrow> string \<Rightarrow> bool" where
  "sample_match r t = contains r t"

section \<open>Consistency of the cache\<close>

lemma cache_okD:
  "cache_ok compile s \<Longrightarrow> fmlookup (cache s) p = Some re
     \<Longrightarrow> compile p = Inr (obj re) \<and> addr re < fresh s"
  by (auto simp: cache_ok_def fmpred_iff)

lemma cache_ok_init: "cache_ok compile init_state"
  by (simp add: cache_ok_def init_state_def)

lemma cache_ok_ClearRegexpCache: "cache_ok compile (ClearRegexpCache s)"
  by (simp add: cache_ok_def ClearRegexpCache_def)

lemma cache_ok_regexpFunction:
  assumes "cache_ok compile s"
  shows "cache_ok compile (snd (regexpFunction compile matchString pattern text s))"
proof (cases "fmlookup (cache s) pattern")
  case (Some re)
  with assms show ?thesis by (simp add: regexpFunction_def)
next
  case None
  show ?thesis
  proof (cases "compile pattern")
    case (Inl err)
    with None assms show ?thesis by (simp add: regexpFunction_def)
  next
    case (Inr r)
    have "compile p = Inr (obj re) \<and> addr re < Suc (fresh s)"
      if "fmlookup (cache s) p = Some re" for p re
      using cache_okD [OF assms that] by simp
    with None Inr show ?thesis
      by (simp add: regexpFunction_def Let_def cache_ok_def fmpred_iff)
  qed
qed

lemma cache_ok_run_call:
  "cache_ok compile s \<Longrightarrow> cache_ok compile (run_call compile matchString c s)"
  by (cases c) (simp_all add: cache_ok_regexpFunction cache_ok_ClearRegexpCache)

lemma cache_ok_run_calls_from:
  "cache_ok compile s \<Longrightarrow> cache_ok compile (run_calls compile matchString cs s)"
  by (induction cs arbitrary: s) (simp_all add: cache_ok_run_call)

lemma cache_ok_run_calls: "cache_ok compile (run_calls compile matchString cs init_state)"
  by (rule cache_ok_run_calls_from [OF cache_ok_init])

lemma regexpFunction_valid:
  assumes "cache_ok compile s" and "compile pattern = Inr r"
  shows "fst (regexpFunction compile matchString pattern text s)
           = (if matchString r text then 1 else 0, None)"
proof (cases "fmlookup (cache s) pattern")
  case (Some re)
  from cache_okD [OF assms(1) Some] assms(2) have "obj re = r" by simp
  with Some show ?thesis by (simp add: regexpFunction_def)
next
  case None
  with assms(2) show ?thesis by (simp add: regexpFunction_def Let_def)
qed

lemma regexpFunction_invalid:
  assumes "cache_ok compile s" and "compile pattern = Inl err"
  shows "fmlookup (cache s) pattern = None"
    and "regexpFunction compile matchString pattern text s = ((0, Some err), s)"
proof -
  show miss: "fmlookup (cache s) pattern = None"
  proof (cases "fmlookup (cache s) pattern")
    case (Some re)
    from cache_okD [OF assms(1) Some] assms(2) show ?thesis by simp
  qed simp
  from miss assms(2) show "regexpFunction compile matchString pattern text s = ((0, Some err), s)"
    by (simp add: regexpFunction_def)
qed

section \<open>Correctness of the predicate\<close>

text \<open>
  Claim C1.  For a valid pattern (one that \<^verbatim>\<open>regexp.Compile\<close> accepts),
  \<^verbatim>\<open>regexpFunction\<close> returns \<^verbatim>\<open>(1, nil)\<close> when the compiled pattern matches the
  text and \<^verbatim>\<open>(0, nil)\<close> otherwise, after any sequence of earlier calls.
\<close>

theorem regexpFunction_correct:
  "compile pattern = Inr r \<Longrightarrow>
   fst (regexpFunction compile matchString pattern text
          (run_calls compile matchString cs init_state))
     = (if matchString r text then (1, None) else (0, None))"
  by (simp add: regexpFunction_valid [OF cache_ok_run_calls])

theorem regexpFunction_correct_witness:
  "sample_compile ''ap'' = Inr ''ap''
   \<and> fst (regexpFunction sample_compile sample_match ''ap'' ''apple''
            (run_calls sample_compile sample_match
               [Call_regexpFunction ''ap'' ''banana'', Call_regexpFunction ''pl'' ''apple'']
               init_state))
       = (1, None)"
proof -
  have c: "sample_compile ''ap'' = Inr ''ap''" by (simp add: sample_compile_def)
  have m: "sample_match ''ap'' ''apple''" by (simp add: sample_match_def)
  from regexpFunction_correct [of sample_compile "''ap''" "''ap''" sample_match "''apple''"
      "[Call_regexpFunction ''ap'' ''banana'', Call_regexpFunction ''pl'' ''apple'']", OF c]
    c m show ?thesis by simp
qed

section \<open>The result of a call\<close>

lemma regexpFunction_result_cases:
  "fst (regexpFunction compile matchString pattern text s) = (1, None)
   \<or> fst (regexpFunction compile matchString pattern text s) = (0, None)
   \<or> (\<exists>err. fst (regexpFunction compile matchString pattern text s) = (0, Some err))"
  by (simp add: regexpFunction_def Let_def split: option.split sum.split)

text \<open>
  Claim C10.  Whenever \<^verbatim>\<open>regexpFunction\<close> returns a non-nil error its integer result
  is exactly 0, and in every case the integer result is 0 or 1.  This holds in every
  state of the cache.
\<close>

theorem regexpFunction_int_result:
  "(snd (fst (regexpFunction compile matchString pattern text s)) \<noteq> None
      \<longrightarrow> fst (fst (regexpFunction compile matchString pattern text s)) = 0)
   \<and> (fst (fst (regexpFunction compile matchString pattern text s)) = 0
      \<or> fst (fst (regexpFunction compile matchString pattern text s)) = 1)"
  using regexpFunction_result_cases [of compile matchString pattern "text" s] by auto

theorem regexpFunction_int_result_witness:
  "snd (fst (regexpFunction sample_compile sample_match ''['' ''anything'' init_state)) \<noteq> None
   \<and> fst (fst (regexpFunction sample_compile sample_match ''['' ''anything'' init_state)) = 0"
  using regexpFunction_int_result [of sample_compile sample_match "''[''" "''anything''" init_state]
  by (simp add: regexpFunction_def sample_compile_def init_state_def)

section \<open>Errors\<close>

lemma getOrCompile_miss_invalid:
  "fmlookup (cache s) pattern = None \<Longrightarrow> compile pattern = Inl err
     \<Longrightarrow> getOrCompile compile pattern s = Inl err"
  by (simp add: getOrCompile_def)

text \<open>
  Claim C2.  For a malformed pattern and any text, after any sequence of earlier calls,
  the call returns the error, the number of entries is unchanged (the whole state is),
  and the pattern is not in the map afterwards: a later call with the same pattern
  misses again and gets the same error from the compiler.
\<close>

theorem invalid_pattern_not_cached:
  assumes "compile pattern = Inl err"
    and "s = run_calls compile matchString cs init_state"
  shows "getOrCompile compile pattern s = Inl err
    \<and> snd (fst (regexpFunction compile matchString pattern text s)) = Some err
    \<and> GetCacheSize (snd (regexpFunction compile matchString pattern text s)) = GetCacheSize s
    \<and> snd (regexpFunction compile matchString pattern text s) = s
    \<and> fmlookup (cache (snd (regexpFunction compile matchString pattern text s))) pattern = None
    \<and> getOrCompile compile pattern (snd (regexpFunction compile matchString pattern text s))
        = Inl err
    \<and> regexpFunction compile matchString pattern text'
          (snd (regexpFunction compile matchString pattern text s)) = ((0, Some err), s)"
proof -
  have ok: "cache_ok compile s"
    unfolding assms(2) by (rule cache_ok_run_calls)
  note miss = regexpFunction_invalid(1) [OF ok assms(1)]
  have call: "regexpFunction compile matchString pattern t s = ((0, Some err), s)" for t
    by (rule regexpFunction_invalid(2) [OF ok assms(1)])
  have "getOrCompile compile pattern s = Inl err"
    using miss assms(1) by (rule getOrCompile_miss_invalid)
  with miss call show ?thesis
    by simp
qed

theorem invalid_pattern_not_cached_witness:
  "sample_compile ''['' = Inl ''missing closing ]''
   \<and> snd (fst (regexpFunction sample_compile sample_match ''['' ''anything''
                 (run_calls sample_compile sample_match [Call_regexpFunction ''ap'' ''apple'']
                    init_state)))
       = Some ''missing closing ]''
   \<and> GetCacheSize (snd (regexpFunction sample_compile sample_match ''['' ''anything''
                 (run_calls sample_compile sample_match [Call_regexpFunction ''ap'' ''apple'']
                    init_state)))
       = 1"
proof -
  have c: "sample_compile ''['' = Inl ''missing closing ]''"
    by (simp add: sample_compile_def)
  have n: "GetCacheSize (run_calls sample_compile sample_match
             [Call_regexpFunction ''ap'' ''apple''] init_state) = 1"
    by (simp add: GetCacheSize_def regexpFunction_def sample_compile_def init_state_def
        Let_def fcard_finsert_if)
  from invalid_pattern_not_cached [of sample_compile "''[''" "''missing closing ]''" _
      sample_match "[Call_regexpFunction ''ap'' ''apple'']" "''anything''", OF c refl] c n
  show ?thesis by simp
qed

text \<open>
  Claim C5.  When the pattern is not in the map and its compilation fails, the call
  returns the compiler's error itself, with the integer 0, and changes nothing: the error
  is neither replaced nor dropped, and nothing is compiled a second time.
\<close>

theorem compile_error_propagated:
  "fmlookup (cache s) pattern = None \<Longrightarrow> compile pattern = Inl err \<Longrightarrow>
   getOrCompile compile pattern s = Inl err
   \<and> regexpFunction compile matchString pattern text s = ((0, Some err), s)"
  by (simp add: getOrCompile_def regexpFunction_def)

theorem compile_error_propagated_witness:
  "fmlookup (cache (init_state :: string state)) ''['' = None
   \<and> sample_compile ''['' = Inl ''missing closing ]''
   \<and> regexpFunction sample_compile sample_match ''['' ''anything'' init_state
       = ((0, Some ''missing closing ]''), init_state)"
proof -
  have a: "fmlookup (cache (init_state :: string state)) ''['' = None"
    by (simp add: init_state_def)
  have c: "sample_compile ''['' = Inl ''missing closing ]''"
    by (simp add: sample_compile_def)
  from compile_error_propagated [of init_state "''[''" sample_compile "''missing closing ]''"
      sample_match "''anything''", OF a c] a c
  show ?thesis by simp
qed

section \<open>Growth and reset of the cache\<close>

lemma regexpFunction_getOrCompile:
  "regexpFunction compile matchString pattern text s =
     (case getOrCompile compile pattern s of
        Inl err \<Rightarrow> ((0, Some err), s)
      | Inr (re, s') \<Rightarrow> ((if matchString (obj re) text then 1 else 0, None), s'))"
  by (simp add: regexpFunction_def getOrCompile_def Let_def split: option.split sum.split)

lemma getOrCompile_hit:
  "fmlookup (cache s) pattern = Some re \<Longrightarrow> getOrCompile compile pattern s = Inr (re, s)"
  by (simp add: getOrCompile_def)

lemma getOrCompile_miss_valid:
  "fmlookup (cache s) pattern = None \<Longrightarrow> compile pattern = Inr r \<Longrightarrow>
   getOrCompile compile pattern s =
     Inr (\<lparr>addr = fresh s, obj = r\<rparr>,
          s\<lparr>cache := fmupd pattern \<lparr>addr = fresh s, obj = r\<rparr> (cache s),
            fresh := Suc (fresh s)\<rparr>)"
  by (simp add: getOrCompile_def Let_def)

lemma getOrCompile_stores:
  "getOrCompile compile pattern s = Inr (re, s') \<Longrightarrow> fmlookup (cache s') pattern = Some re"
  by (auto simp: getOrCompile_def Let_def split: option.splits sum.splits)

text \<open>
  Claim C3.  For a valid pattern, in any state, the first part of \<^verbatim>\<open>regexpFunction\<close>
  run twice with that pattern yields the same matcher both times (so the two agree on
  every text), the second run leaves the state as the first left it, and the size does
  not grow on the second run.  Two whole calls likewise: the second finds the state of
  the first unchanged, whatever the two texts.
\<close>

theorem getOrCompile_twice:
  assumes "compile pattern = Inr r"
  shows "\<exists>re1 s1 re2 s2.
           getOrCompile compile pattern s = Inr (re1, s1)
           \<and> getOrCompile compile pattern s1 = Inr (re2, s2)
           \<and> (\<forall>t. matchString (obj re2) t = matchString (obj re1) t)
           \<and> GetCacheSize s2 \<le> GetCacheSize s1
           \<and> re2 = re1 \<and> s2 = s1
           \<and> snd (regexpFunction compile matchString pattern text s) = s1
           \<and> snd (regexpFunction compile matchString pattern text' s1) = s1"
proof -
  obtain re s1 where first: "getOrCompile compile pattern s = Inr (re, s1)"
    using assms by (cases "fmlookup (cache s) pattern") (simp_all add: getOrCompile_def Let_def)
  from getOrCompile_stores [OF first] have "fmlookup (cache s1) pattern = Some re" .
  then have second: "getOrCompile compile pattern s1 = Inr (re, s1)"
    by (rule getOrCompile_hit)
  from first second show ?thesis
    by (simp add: regexpFunction_getOrCompile)
qed

theorem getOrCompile_twice_witness:
  "sample_compile ''ap'' = Inr ''ap''
   \<and> getOrCompile sample_compile ''ap'' (init_state :: string state)
       = Inr (\<lparr>addr = 0, obj = ''ap''\<rparr>,
              \<lparr>cache = fmupd ''ap'' \<lparr>addr = 0, obj = ''ap''\<rparr> fmempty, fresh = 1\<rparr>)
   \<and> getOrCompile sample_compile ''ap''
         \<lparr>cache = fmupd ''ap'' \<lparr>addr = 0, obj = ''ap''\<rparr> fmempty, fresh = 1\<rparr>
       = Inr (\<lparr>addr = 0, obj = ''ap''\<rparr>,
              \<lparr>cache = fmupd ''ap'' \<lparr>addr = 0, obj = ''ap''\<rparr> fmempty, fresh = 1\<rparr>)"
proof -
  have c: "sample_compile ''ap'' = Inr ''ap''" by (simp add: sample_compile_def)
  have g: "getOrCompile sample_compile ''ap'' (init_state :: string state)
       = Inr (\<lparr>addr = 0, obj = ''ap''\<rparr>,
              \<lparr>cache = fmupd ''ap'' \<lparr>addr = 0, obj = ''ap''\<rparr> fmempty, fresh = 1\<rparr>)"
    by (simp add: getOrCompile_def sample_compile_def init_state_def Let_def)
  from getOrCompile_twice [of sample_compile "''ap''" "''ap''" init_state sample_match
      "''apple''" "''banana''", OF c] c g
  show ?thesis by auto
qed

lemma GetCacheSize_ClearRegexpCache: "GetCacheSize (ClearRegexpCache s) = 0"
  by (simp add: GetCacheSize_def ClearRegexpCache_def)

lemma GetCacheSize_store:
  "GetCacheSize (s\<lparr>cache := fmupd pattern re (cache s), fresh := n\<rparr>) =
     (if pattern |\<in>| fmdom (cache s) then GetCacheSize s else Suc (GetCacheSize s))"
  by (simp add: GetCacheSize_def fcard_finsert_if)

text \<open>
  Claim C4.  \<^verbatim>\<open>ClearRegexpCache\<close> replaces the map by the empty one, so the size is 0
  right after it.  For a pattern that was in the map before, the next lookup misses: the
  pattern is compiled again, into a new object at an address that differs from the old
  one, and the size is 1 afterwards.
\<close>

theorem clear_then_recompile:
  assumes "s = run_calls compile matchString cs init_state"
    and "fmlookup (cache s) pattern = Some old"
  shows "cache (ClearRegexpCache s) = fmempty
    \<and> GetCacheSize (ClearRegexpCache s) = 0
    \<and> fmlookup (cache (ClearRegexpCache s)) pattern = None
    \<and> (\<exists>re s'. getOrCompile compile pattern (ClearRegexpCache s) = Inr (re, s')
          \<and> compile pattern = Inr (obj re)
          \<and> addr re = fresh s \<and> addr re \<noteq> addr old
          \<and> fresh s' = Suc (fresh s)
          \<and> GetCacheSize s' = 1)
    \<and> GetCacheSize (snd (regexpFunction compile matchString pattern text (ClearRegexpCache s)))
        = 1"
proof -
  have ok: "cache_ok compile s"
    unfolding assms(1) by (rule cache_ok_run_calls)
  from cache_okD [OF ok assms(2)]
  have valid: "compile pattern = Inr (obj old)" and below: "addr old < fresh s"
    by simp_all
  have miss: "fmlookup (cache (ClearRegexpCache s)) pattern = None"
    by (simp add: ClearRegexpCache_def)
  have again: "getOrCompile compile pattern (ClearRegexpCache s) =
      Inr (\<lparr>addr = fresh s, obj = obj old\<rparr>,
           (ClearRegexpCache s)\<lparr>cache := fmupd pattern \<lparr>addr = fresh s, obj = obj old\<rparr> fmempty,
             fresh := Suc (fresh s)\<rparr>)"
    using miss valid by (simp add: getOrCompile_def Let_def ClearRegexpCache_def)
  have size: "GetCacheSize ((ClearRegexpCache s)
      \<lparr>cache := fmupd pattern \<lparr>addr = fresh s, obj = obj old\<rparr> fmempty,
        fresh := Suc (fresh s)\<rparr>) = 1"
    by (simp add: GetCacheSize_def fcard_finsert_if)
  have empty: "cache (ClearRegexpCache s) = fmempty"
    by (simp add: ClearRegexpCache_def)
  from valid below miss again size empty show ?thesis
    by (simp add: regexpFunction_getOrCompile GetCacheSize_ClearRegexpCache)
qed

theorem clear_then_recompile_witness:
  "fmlookup (cache (run_calls sample_compile sample_match [Call_regexpFunction ''ap'' ''apple'']
       init_state)) ''ap'' = Some \<lparr>addr = 0, obj = ''ap''\<rparr>
   \<and> GetCacheSize (ClearRegexpCache (run_calls sample_compile sample_match
       [Call_regexpFunction ''ap'' ''apple''] init_state)) = 0
   \<and> GetCacheSize (snd (regexpFunction sample_compile sample_match ''ap'' ''banana''
       (ClearRegexpCache (run_calls sample_compile sample_match
          [Call_regexpFunction ''ap'' ''apple''] init_state)))) = 1"
proof -
  have h: "fmlookup (cache (run_calls sample_compile sample_match
      [Call_regexpFunction ''ap'' ''apple''] init_state)) ''ap'' = Some \<lparr>addr = 0, obj = ''ap''\<rparr>"
    by (simp add: regexpFunction_def sample_compile_def init_state_def Let_def)
  from clear_then_recompile [of _ sample_compile sample_match
      "[Call_regexpFunction ''ap'' ''apple'']" "''ap''" "\<lparr>addr = 0, obj = ''ap''\<rparr>" "''banana''",
      OF refl h] h
  show ?thesis by simp
qed

text \<open>
  Claim C7.  In any state, a call of \<^verbatim>\<open>regexpFunction\<close> leaves the size as it was
  or makes it one larger, and every entry present before the call is present, unchanged,
  after it.  \<^verbatim>\<open>ClearRegexpCache\<close> is the operation that empties the map.
\<close>

theorem cache_grows_monotonically:
  assumes "s' = snd (regexpFunction compile matchString pattern text s)"
  shows "(GetCacheSize s' = GetCacheSize s \<or> GetCacheSize s' = GetCacheSize s + 1)
    \<and> (\<forall>q re. fmlookup (cache s) q = Some re \<longrightarrow> fmlookup (cache s') q = Some re)
    \<and> fmdom (cache s) |\<subseteq>| fmdom (cache s')
    \<and> cache (ClearRegexpCache s) = fmempty"
proof (cases "getOrCompile compile pattern s")
  case (Inl err)
  with assms show ?thesis
    by (simp add: regexpFunction_getOrCompile ClearRegexpCache_def)
next
  case (Inr p)
  show ?thesis
  proof (cases "fmlookup (cache s) pattern")
    case (Some re)
    with assms show ?thesis
      by (simp add: regexpFunction_def ClearRegexpCache_def)
  next
    case None
    then have absent: "pattern |\<notin>| fmdom (cache s)"
      by (rule fmdom_notI)
    from Inr None obtain r where valid: "compile pattern = Inr r"
      by (cases "compile pattern") (simp_all add: getOrCompile_def)
    from assms None valid
    have s': "s' = s\<lparr>cache := fmupd pattern \<lparr>addr = fresh s, obj = r\<rparr> (cache s),
                     fresh := Suc (fresh s)\<rparr>"
      by (simp add: regexpFunction_def Let_def)
    have "GetCacheSize s' = GetCacheSize s + 1"
      unfolding s' using absent by (simp add: GetCacheSize_store)
    moreover have "fmlookup (cache s') q = Some re" if "fmlookup (cache s) q = Some re" for q re
      using that None unfolding s' by auto
    moreover have "fmdom (cache s) |\<subseteq>| fmdom (cache s')"
      unfolding s' by auto
    ultimately show ?thesis
      by (simp add: ClearRegexpCache_def)
  qed
qed

theorem cache_grows_monotonically_witness:
  "GetCacheSize (snd (regexpFunction sample_compile sample_match ''pl'' ''apple''
       \<lparr>cache = fmupd ''ap'' \<lparr>addr = 0, obj = ''ap''\<rparr> fmempty, fresh = 1\<rparr>)) = 2
   \<and> fmlookup (cache (snd (regexpFunction sample_compile sample_match ''pl'' ''apple''
       \<lparr>cache = fmupd ''ap'' \<lparr>addr = 0, obj = ''ap''\<rparr> fmempty, fresh = 1\<rparr>))) ''ap''
       = Some \<lparr>addr = 0, obj = ''ap''\<rparr>"
proof -
  have n: "GetCacheSize
      \<lparr>cache = fmupd ''ap'' \<lparr>addr = (0::nat), obj = ''ap''\<rparr> fmempty, fresh = 1\<rparr> = 1"
    by (simp add: GetCacheSize_def fcard_finsert_if)
  have m: "GetCacheSize (snd (regexpFunction sample_compile sample_match ''pl'' ''apple''
       \<lparr>cache = fmupd ''ap'' \<lparr>addr = 0, obj = ''ap''\<rparr> fmempty, fresh = 1\<rparr>)) \<noteq> 1"
    by (simp add: regexpFunction_def sample_compile_def Let_def GetCacheSize_def fcard_finsert_if)
  from cache_grows_monotonically [of _ sample_compile sample_match "''pl''" "''apple''"
      "\<lparr>cache = fmupd ''ap'' \<lparr>addr = 0, obj = ''ap''\<rparr> fmempty, fresh = 1\<rparr>", OF refl] n m
  show ?thesis by simp
qed

section \<open>Independence of the cache state\<close>

text \<open>
  Claim C9.  After any sequence of calls of \<^verbatim>\<open>regexpFunction\<close> and
  \<^verbatim>\<open>ClearRegexpCache\<close>, a call returns what the reference without a cache returns
  for the same pattern and text; hence two different histories give the same result.
\<close>

theorem regexpFunction_independent_of_history:
  "fst (regexpFunction compile matchString pattern text
          (run_calls compile matchString cs init_state))
     = regexpFunction_uncached compile matchString pattern text
   \<and> fst (regexpFunction compile matchString pattern text
            (run_calls compile matchString cs init_state))
     = fst (regexpFunction compile matchString pattern text
              (run_calls compile matchString cs' init_state))"
proof -
  have "fst (regexpFunction compile matchString pattern text
               (run_calls compile matchString ds init_state))
          = regexpFunction_uncached compile matchString pattern text" for ds
  proof (cases "compile pattern")
    case (Inl err)
    have "cache_ok compile (run_calls compile matchString ds init_state)"
      by (rule cache_ok_run_calls)
    then have "regexpFunction compile matchString pattern text
        (run_calls compile matchString ds init_state)
        = ((0, Some err), run_calls compile matchString ds init_state)"
      using Inl by (rule regexpFunction_invalid(2))
    then show ?thesis by (simp add: regexpFunction_uncached_def Inl)
  next
    case (Inr r)
    have "cache_ok compile (run_calls compile matchString ds init_state)"
      by (rule cache_ok_run_calls)
    then have "fst (regexpFunction compile matchString pattern text
        (run_calls compile matchString ds init_state))
        = (if matchString r text then 1 else 0, None)"
      using Inr by (rule regexpFunction_valid)
    then show ?thesis by (simp add: regexpFunction_uncached_def Inr)
  qed
  then show ?thesis by simp
qed

section \<open>One matcher for each pattern\<close>

lemma fmran_image: "fmran m = (\<lambda>p. the (fmlookup m p)) |`| fmdom m"
proof (rule fset_eqI)
  fix x
  show "x |\<in>| fmran m \<longleftrightarrow> x |\<in>| (\<lambda>p. the (fmlookup m p)) |`| fmdom m"
  proof
    assume "x |\<in>| fmran m"
    then obtain p where p: "fmlookup m p = Some x"
      by (auto simp: fmlookup_ran_iff)
    then have "p |\<in>| fmdom m" by (rule fmdomI)
    moreover from p have "x = the (fmlookup m p)" by simp
    ultimately show "x |\<in>| (\<lambda>p. the (fmlookup m p)) |`| fmdom m"
      by blast
  next
    assume "x |\<in>| (\<lambda>p. the (fmlookup m p)) |`| fmdom m"
    then obtain p where "p |\<in>| fmdom m" and "x = the (fmlookup m p)"
      by auto
    then have "fmlookup m p = Some x"
      by (auto simp: fmlookup_dom_iff)
    then show "x |\<in>| fmran m" by (rule fmranI)
  qed
qed

lemma fcard_fmran_le: "fcard (fmran m) \<le> fcard (fmdom m)"
  unfolding fmran_image by (simp add: fcard.rep_eq card_image_le)

lemma card_fmlookup_le_1: "card {v. fmlookup m k = Some v} \<le> 1"
proof (cases "fmlookup m k")
  case None
  then show ?thesis by simp
next
  case (Some x)
  then have "{v. fmlookup m k = Some v} = {x}" by auto
  then show ?thesis by simp
qed

text \<open>
  Claim C6.  After any sequence of calls of \<^verbatim>\<open>regexpFunction\<close> and
  \<^verbatim>\<open>ClearRegexpCache\<close>, a pattern has at most one matcher stored for it, that
  matcher is the compiled form of the pattern, and the map holds no more matchers than
  it has keys.  A pattern also has at most one matcher stored at every point of every
  interleaving of concurrent calls.
\<close>

theorem one_matcher_per_pattern:
  "card {re. fmlookup (cache (run_calls compile matchString cs init_state)) pattern = Some re}
     \<le> 1
   \<and> (\<forall>re. fmlookup (cache (run_calls compile matchString cs init_state)) pattern = Some re
          \<longrightarrow> compile pattern = Inr (obj re))
   \<and> fcard (fmran (cache (run_calls compile matchString cs init_state)))
     \<le> GetCacheSize (run_calls compile matchString cs init_state)
   \<and> card {re. fmlookup (cache (shared (run_schedule compile matchString sched
              \<lparr>threads = ts, shared = run_calls compile matchString cs init_state\<rparr>)))
            pattern = Some re}
     \<le> 1"
proof -
  have "cache_ok compile (run_calls compile matchString cs init_state)"
    by (rule cache_ok_run_calls)
  then have "compile pattern = Inr (obj re)"
    if "fmlookup (cache (run_calls compile matchString cs init_state)) pattern = Some re" for re
    using that by (simp add: cache_okD)
  moreover have "fcard (fmran (cache (run_calls compile matchString cs init_state)))
      \<le> GetCacheSize (run_calls compile matchString cs init_state)"
    by (simp add: GetCacheSize_def fcard_fmran_le)
  ultimately show ?thesis
    by (intro conjI card_fmlookup_le_1) blast+
qed

theorem one_matcher_per_pattern_witness:
  "fmlookup (cache (run_calls sample_compile sample_match
       [Call_regexpFunction ''ap'' ''apple'', Call_regexpFunction ''ap'' ''banana''] init_state))
     ''ap'' = Some \<lparr>addr = 0, obj = ''ap''\<rparr>
   \<and> sample_compile ''ap'' = Inr ''ap''
   \<and> card {re. fmlookup (cache (run_calls sample_compile sample_match
       [Call_regexpFunction ''ap'' ''apple'', Call_regexpFunction ''ap'' ''banana''] init_state))
     ''ap'' = Some re} \<le> 1"
proof -
  have h: "fmlookup (cache (run_calls sample_compile sample_match
       [Call_regexpFunction ''ap'' ''apple'', Call_regexpFunction ''ap'' ''banana''] init_state))
     ''ap'' = Some \<lparr>addr = 0, obj = ''ap''\<rparr>"
    by (simp add: regexpFunction_def sample_compile_def init_state_def Let_def)
  from one_matcher_per_pattern [of sample_compile sample_match
      "[Call_regexpFunction ''ap'' ''apple'', Call_regexpFunction ''ap'' ''banana'']" "''ap''"
      "[]" "[]"] h
  show ?thesis by simp
qed

section \<open>Two threads and one new pattern\<close>

text \<open>A thread that runs alone through its four steps does what \<^verbatim>\<open>regexpFunction\<close> does.\<close>

lemma regexpFunction_as_steps:
  "run_schedule compile matchString [0, 0, 0, 0] \<lparr>threads = [At_lookup pattern text], shared = s\<rparr>
     = \<lparr>threads = [Returned (fst (fst (regexpFunction compile matchString pattern text s)))
                             (snd (fst (regexpFunction compile matchString pattern text s)))],
        shared = snd (regexpFunction compile matchString pattern text s)\<rparr>"
  by (simp add: step_def regexpFunction_def Let_def split: option.split sum.split)

lemma run_schedule_append:
  "run_schedule compile matchString (xs @ ys) c
     = run_schedule compile matchString ys (run_schedule compile matchString xs c)"
  by (induction xs arbitrary: c) simp_all

text \<open>
  The store is unconditional: whatever the map held for the pattern, after the step it
  holds the object of the thread that stored, and the number of keys is the same as if
  the pattern had been stored once.
\<close>

lemma step_store:
  assumes "k < length (threads c)" and "threads c ! k = At_store q t re"
  shows "fmlookup (cache (shared (step compile matchString k c))) q = Some re"
    and "GetCacheSize (shared (step compile matchString k c))
           = (if q |\<in>| fmdom (cache (shared c)) then GetCacheSize (shared c)
              else Suc (GetCacheSize (shared c)))"
  using assms by (simp_all add: step_def GetCacheSize_def fcard_finsert_if)

text \<open>A step that is not a store for the pattern leaves the entry of the pattern alone.\<close>

lemma step_other:
  assumes "\<forall>t re. threads c ! k \<noteq> At_store q t re"
  shows "fmlookup (cache (shared (step compile matchString k c))) q
           = fmlookup (cache (shared c)) q"
proof (cases "k < length (threads c)")
  case False
  then show ?thesis by (simp add: step_def)
next
  case True
  show ?thesis
  proof (cases "threads c ! k")
    case (At_store q' t re)
    with assms have "q' \<noteq> q" by auto
    with True At_store show ?thesis by (simp add: step_def)
  qed (use True in \<open>simp_all add: step_def split: option.split sum.split\<close>)
qed

text \<open>
  The interleavings of the three steps of thread \<open>i\<close> (lookup, compile, store) with the
  first two steps of thread \<open>j\<close> (lookup, compile) in which \<open>j\<close> looks up before \<open>i\<close>
  stores.
\<close>

lemma race_interleavings:
  assumes "i \<noteq> j" and "length pre = 5" and "count_list pre i = 3" and "count_list pre j = 2"
    and "pre \<noteq> [i, i, i, j, j]"
  shows "pre \<in> {[i, i, j, i, j], [i, i, j, j, i], [i, j, i, i, j], [i, j, i, j, i],
                 [i, j, j, i, i], [j, i, i, i, j], [j, i, i, j, i], [j, i, j, i, i],
                 [j, j, i, i, i]}"
proof -
  from assms(2) obtain a b c d e where pre: "pre = [a, b, c, d, e]"
    by (auto simp: length_Suc_conv eval_nat_numeral)
  from assms(1,3,4,5) show ?thesis
    unfolding pre by (simp split: if_splits)
qed

lemma race_two_threads:
  assumes "compile pattern = Inr r"
    and "fmlookup (cache s) pattern = None"
    and "i < length ts" and "j < length ts" and "i \<noteq> j"
    and "ts ! i = At_lookup pattern text_i"
    and "ts ! j = At_lookup pattern text_j"
    and "pre \<in> {[i, i, j, i, j], [i, i, j, j, i], [i, j, i, i, j], [i, j, i, j, i],
                 [i, j, j, i, i], [j, i, i, i, j], [j, i, i, j, i], [j, i, j, i, i],
                 [j, j, i, i, i]}"
  shows "\<exists>re_i re_j.
      threads (run_schedule compile matchString pre \<lparr>threads = ts, shared = s\<rparr>) ! i
        = At_match re_i text_i
    \<and> threads (run_schedule compile matchString pre \<lparr>threads = ts, shared = s\<rparr>) ! j
        = At_store pattern text_j re_j
    \<and> obj re_i = r \<and> obj re_j = r \<and> addr re_i \<noteq> addr re_j
    \<and> fmlookup (cache (shared (run_schedule compile matchString pre
          \<lparr>threads = ts, shared = s\<rparr>))) pattern = Some re_i
    \<and> fmlookup (cache (shared (run_schedule compile matchString (pre @ [j])
          \<lparr>threads = ts, shared = s\<rparr>))) pattern = Some re_j
    \<and> fmlookup (cache (shared (run_schedule compile matchString (pre @ [j])
          \<lparr>threads = ts, shared = s\<rparr>))) pattern \<noteq> Some re_i
    \<and> GetCacheSize (shared (run_schedule compile matchString pre
          \<lparr>threads = ts, shared = s\<rparr>)) = Suc (GetCacheSize s)
    \<and> GetCacheSize (shared (run_schedule compile matchString (pre @ [j])
          \<lparr>threads = ts, shared = s\<rparr>)) = Suc (GetCacheSize s)
    \<and> threads (run_schedule compile matchString (pre @ [j, i, j])
          \<lparr>threads = ts, shared = s\<rparr>) ! i
        = Returned (if matchString r text_i then 1 else 0) None
    \<and> threads (run_schedule compile matchString (pre @ [j, i, j])
          \<lparr>threads = ts, shared = s\<rparr>) ! j
        = Returned (if matchString r text_j then 1 else 0) None"
proof -
  have absent: "pattern |\<notin>| fmdom (cache s)"
    using assms(2) by (rule fmdom_notI)
  from assms(8) consider
      "pre = [i, i, j, i, j]" | "pre = [i, i, j, j, i]" | "pre = [i, j, i, i, j]"
    | "pre = [i, j, i, j, i]" | "pre = [i, j, j, i, i]" | "pre = [j, i, i, i, j]"
    | "pre = [j, i, i, j, i]" | "pre = [j, i, j, i, i]" | "pre = [j, j, i, i, i]"
    by auto
  then show ?thesis
  proof cases
    case 1
    with assms(1-7) absent show ?thesis
      by (simp add: step_def GetCacheSize_def fcard_finsert_if)
  next
    case 2
    with assms(1-7) absent show ?thesis
      by (simp add: step_def GetCacheSize_def fcard_finsert_if)
  next
    case 3
    with assms(1-7) absent show ?thesis
      by (simp add: step_def GetCacheSize_def fcard_finsert_if)
  next
    case 4
    with assms(1-7) absent show ?thesis
      by (simp add: step_def GetCacheSize_def fcard_finsert_if)
  next
    case 5
    with assms(1-7) absent show ?thesis
      by (simp add: step_def GetCacheSize_def fcard_finsert_if)
  next
    case 6
    with assms(1-7) absent show ?thesis
      by (simp add: step_def GetCacheSize_def fcard_finsert_if)
  next
    case 7
    with assms(1-7) absent show ?thesis
      by (simp add: step_def GetCacheSize_def fcard_finsert_if)
  next
    case 8
    with assms(1-7) absent show ?thesis
      by (simp add: step_def GetCacheSize_def fcard_finsert_if)
  next
    case 9
    with assms(1-7) absent show ?thesis
      by (simp add: step_def GetCacheSize_def fcard_finsert_if)
  qed
qed

text \<open>
  Claim C8, as the code has it.  Two threads \<open>i\<close> and \<open>j\<close> call \<^verbatim>\<open>regexpFunction\<close>
  with the same valid pattern, which is not in the map, and both look it up before
  either stores.  Let \<open>j\<close> be the one that takes the write lock second: the schedule is
  any interleaving \<open>pre\<close> of the lookup, compilation and store of \<open>i\<close> with the lookup
  and compilation of \<open>j\<close> in which \<open>j\<close> looks up before \<open>i\<close> stores, followed by the
  store of \<open>j\<close>.  The two compilations may come in either order.  Then, in every such
  schedule:
  \<^item> both threads compile, each into an object of its own, at different addresses;
  \<^item> after the store of \<open>i\<close> the map holds the object of \<open>i\<close> under the pattern;
  \<^item> after the store of \<open>j\<close> it holds the object of \<open>j\<close>, the last writer, and no longer
    that of \<open>i\<close>; the map has one entry for the pattern, as after the first store;
  \<^item> both calls return the result of matching their own text.

  The store itself is unconditional and nothing else writes an entry.  After any history
  \<open>hist\<close> from any configuration \<open>c\<close>, with any number of threads: when a thread that is
  at the store for a pattern \<open>q\<close> takes its step, the map holds that thread's object
  under \<open>q\<close>, whatever it held before; and a step of a thread that is not at a store for
  \<open>q\<close> leaves the entry of \<open>q\<close> as it was.  So at every moment the entry of a pattern is
  the object of the thread that stored it last.
\<close>

theorem racing_writers_last_wins:
  assumes "compile pattern = Inr r"
    and "fmlookup (cache s) pattern = None"
    and "i < length ts" and "j < length ts" and "i \<noteq> j"
    and "ts ! i = At_lookup pattern text_i"
    and "ts ! j = At_lookup pattern text_j"
    and "length pre = 5" and "count_list pre i = 3" and "count_list pre j = 2"
    and "pre \<noteq> [i, i, i, j, j]"
  shows "(\<exists>re_i re_j.
      threads (run_schedule compile matchString pre \<lparr>threads = ts, shared = s\<rparr>) ! i
        = At_match re_i text_i
    \<and> threads (run_schedule compile matchString pre \<lparr>threads = ts, shared = s\<rparr>) ! j
        = At_store pattern text_j re_j
    \<and> obj re_i = r \<and> obj re_j = r \<and> addr re_i \<noteq> addr re_j
    \<and> fmlookup (cache (shared (run_schedule compile matchString pre
          \<lparr>threads = ts, shared = s\<rparr>))) pattern = Some re_i
    \<and> fmlookup (cache (shared (run_schedule compile matchString (pre @ [j])
          \<lparr>threads = ts, shared = s\<rparr>))) pattern = Some re_j
    \<and> fmlookup (cache (shared (run_schedule compile matchString (pre @ [j])
          \<lparr>threads = ts, shared = s\<rparr>))) pattern \<noteq> Some re_i
    \<and> GetCacheSize (shared (run_schedule compile matchString pre
          \<lparr>threads = ts, shared = s\<rparr>)) = Suc (GetCacheSize s)
    \<and> GetCacheSize (shared (run_schedule compile matchString (pre @ [j])
          \<lparr>threads = ts, shared = s\<rparr>)) = Suc (GetCacheSize s)
    \<and> threads (run_schedule compile matchString (pre @ [j, i, j])
          \<lparr>threads = ts, shared = s\<rparr>) ! i
        = Returned (if matchString r text_i then 1 else 0) None
    \<and> threads (run_schedule compile matchString (pre @ [j, i, j])
          \<lparr>threads = ts, shared = s\<rparr>) ! j
        = Returned (if matchString r text_j then 1 else 0) None)
   \<and> (k < length (threads (run_schedule compile matchString hist c))
        \<longrightarrow> threads (run_schedule compile matchString hist c) ! k = At_store q t re
        \<longrightarrow> fmlookup (cache (shared (run_schedule compile matchString (hist @ [k]) c))) q
              = Some re)
   \<and> ((\<forall>t2 re2. threads (run_schedule compile matchString hist_b c_b) ! k_b \<noteq> At_store q_b t2 re2)
        \<longrightarrow> fmlookup (cache (shared (run_schedule compile matchString (hist_b @ [k_b]) c_b))) q_b
              = fmlookup (cache (shared (run_schedule compile matchString hist_b c_b))) q_b)"
proof (intro conjI impI)
  from assms(5,8-11)
  have "pre \<in> {[i, i, j, i, j], [i, i, j, j, i], [i, j, i, i, j], [i, j, i, j, i],
                [i, j, j, i, i], [j, i, i, i, j], [j, i, i, j, i], [j, i, j, i, i],
                [j, j, i, i, i]}"
    by (rule race_interleavings)
  with assms(1-7) show "\<exists>re_i re_j.
      threads (run_schedule compile matchString pre \<lparr>threads = ts, shared = s\<rparr>) ! i
        = At_match re_i text_i
    \<and> threads (run_schedule compile matchString pre \<lparr>threads = ts, shared = s\<rparr>) ! j
        = At_store pattern text_j re_j
    \<and> obj re_i = r \<and> obj re_j = r \<and> addr re_i \<noteq> addr re_j
    \<and> fmlookup (cache (shared (run_schedule compile matchString pre
          \<lparr>threads = ts, shared = s\<rparr>))) pattern = Some re_i
    \<and> fmlookup (cache (shared (run_schedule compile matchString (pre @ [j])
          \<lparr>threads = ts, shared = s\<rparr>))) pattern = Some re_j
    \<and> fmlookup (cache (shared (run_schedule compile matchString (pre @ [j])
          \<lparr>threads = ts, shared = s\<rparr>))) pattern \<noteq> Some re_i
    \<and> GetCacheSize (shared (run_schedule compile matchString pre
          \<lparr>threads = ts, shared = s\<rparr>)) = Suc (GetCacheSize s)
    \<and> GetCacheSize (shared (run_schedule compile matchString (pre @ [j])
          \<lparr>threads = ts, shared = s\<rparr>)) = Suc (GetCacheSize s)
    \<and> threads (run_schedule compile matchString (pre @ [j, i, j])
          \<lparr>threads = ts, shared = s\<rparr>) ! i
        = Returned (if matchString r text_i then 1 else 0) None
    \<and> threads (run_schedule compile matchString (pre @ [j, i, j])
          \<lparr>threads = ts, shared = s\<rparr>) ! j
        = Returned (if matchString r text_j then 1 else 0) None"
    by (rule race_two_threads)
next
  assume "k < length (threads (run_schedule compile matchString hist c))"
    and "threads (run_schedule compile matchString hist c) ! k = At_store q t re"
  then show "fmlookup (cache (shared (run_schedule compile matchString (hist @ [k]) c))) q
      = Some re"
    by (simp add: run_schedule_append step_store(1))
next
  assume "\<forall>t2 re2. threads (run_schedule compile matchString hist_b c_b) ! k_b \<noteq> At_store q_b t2 re2"
  then show "fmlookup (cache (shared (run_schedule compile matchString (hist_b @ [k_b]) c_b))) q_b
      = fmlookup (cache (shared (run_schedule compile matchString hist_b c_b))) q_b"
    by (simp add: run_schedule_append step_other)
qed

theorem racing_writers_last_wins_witness:
  "sample_compile ''ap'' = Inr ''ap''
   \<and> fmlookup (cache (init_state :: string state)) ''ap'' = None
   \<and> [At_lookup ''ap'' ''apple'', At_lookup ''ap'' ''banana''] ! 0 = At_lookup ''ap'' ''apple''
   \<and> [At_lookup ''ap'' ''apple'', At_lookup ''ap'' ''banana''] ! 1 = At_lookup ''ap'' ''banana''
   \<and> count_list [0, 1, 1, 0, 0] (0::nat) = 3
   \<and> count_list [0, 1, 1, 0, 0] (1::nat) = 2
   \<and> threads (run_schedule sample_compile sample_match [0, 1, 1, 0, 0]
         \<lparr>threads = [At_lookup ''ap'' ''apple'', At_lookup ''ap'' ''banana''],
           shared = init_state\<rparr>) ! 1
       = At_store ''ap'' ''banana'' \<lparr>addr = 0, obj = ''ap''\<rparr>
   \<and> fmlookup (cache (shared (run_schedule sample_compile sample_match [0, 1, 1, 0, 0]
         \<lparr>threads = [At_lookup ''ap'' ''apple'', At_lookup ''ap'' ''banana''],
           shared = init_state\<rparr>))) ''ap''
       = Some \<lparr>addr = 1, obj = ''ap''\<rparr>
   \<and> fmlookup (cache (shared (run_schedule sample_compile sample_match ([0, 1, 1, 0, 0] @ [1])
         \<lparr>threads = [At_lookup ''ap'' ''apple'', At_lookup ''ap'' ''banana''],
           shared = init_state\<rparr>))) ''ap''
       = Some \<lparr>addr = 0, obj = ''ap''\<rparr>
   \<and> fmlookup (cache (shared (run_schedule sample_compile sample_match ([0, 1, 1] @ [0])
         \<lparr>threads = [At_lookup ''ap'' ''apple'', At_lookup ''ap'' ''banana''],
           shared = init_state\<rparr>))) ''ap''
       = None"
proof -
  let ?ts = "[At_lookup ''ap'' ''apple'', At_lookup ''ap'' ''banana''] :: (string, string) thread list"
  let ?c = "\<lparr>threads = ?ts, shared = init_state\<rparr>"
  have c: "sample_compile ''ap'' = Inr ''ap''"
    by (simp add: sample_compile_def)
  have u: "fmlookup (cache (init_state :: string state)) ''ap'' = None"
    by (simp add: init_state_def)
  have t0: "?ts ! 0 = At_lookup ''ap'' ''apple''"
    by simp
  have t1: "?ts ! 1 = At_lookup ''ap'' ''banana''"
    by simp
  have l0: "0 < length ?ts" and l1: "1 < length ?ts"
    by simp_all
  have d: "(0::nat) \<noteq> 1"
    by simp
  have n: "length [0, 1, 1, 0, 0 :: nat] = 5"
    by simp
  have n0: "count_list [0, 1, 1, 0, 0] (0::nat) = 3"
    by simp
  have n1: "count_list [0, 1, 1, 0, 0] (1::nat) = 2"
    by simp
  have e: "[0, 1, 1, 0, 0] \<noteq> [0, 0, 0, 1, 1 :: nat]"
    by simp
  have at_store: "threads (run_schedule sample_compile sample_match [0, 1, 1, 0, 0] ?c) ! 1
      = At_store ''ap'' ''banana'' \<lparr>addr = 0, obj = ''ap''\<rparr>"
    by (simp add: step_def sample_compile_def init_state_def)
  have in_range: "1 < length (threads (run_schedule sample_compile sample_match
      [0, 1, 1, 0, 0] ?c))"
    by (simp add: step_def sample_compile_def init_state_def)
  have first: "fmlookup (cache (shared (run_schedule sample_compile sample_match
      [0, 1, 1, 0, 0] ?c))) ''ap'' = Some \<lparr>addr = 1, obj = ''ap''\<rparr>"
    by (simp add: step_def sample_compile_def init_state_def)
  have no_store: "\<forall>t2 re2. threads (run_schedule sample_compile sample_match [0, 1, 1] ?c) ! 0
      \<noteq> At_store ''ap'' t2 re2"
    by (simp add: step_def sample_compile_def init_state_def)
  have before: "fmlookup (cache (shared (run_schedule sample_compile sample_match
      [0, 1, 1] ?c))) ''ap'' = None"
    by (simp add: step_def sample_compile_def init_state_def)
  from racing_writers_last_wins [where compile = sample_compile and matchString = sample_match
      and pattern = "''ap''" and r = "''ap''" and s = init_state and ts = ?ts
      and i = 0 and j = 1 and text_i = "''apple''" and text_j = "''banana''"
      and pre = "[0, 1, 1, 0, 0]"
      and hist = "[0, 1, 1, 0, 0]" and c = ?c and k = 1 and q = "''ap''" and t = "''banana''"
      and re = "\<lparr>addr = 0, obj = ''ap''\<rparr>"
      and hist_b = "[0, 1, 1]" and c_b = ?c and k_b = 0 and q_b = "''ap''",
      OF c u l0 l1 d t0 t1 n n0 n1 e]
  have "fmlookup (cache (shared (run_schedule sample_compile sample_match
          ([0, 1, 1, 0, 0] @ [1]) ?c))) ''ap'' = Some \<lparr>addr = 0, obj = ''ap''\<rparr>
      \<and> fmlookup (cache (shared (run_schedule sample_compile sample_match
          ([0, 1, 1] @ [0]) ?c))) ''ap'' = None"
    using at_store in_range no_store before by simp
  with c u t0 t1 n0 n1 at_store first show ?thesis
    by simp
qed

text \<open>
  Claim C8 as the specification words it, that the first writer wins and the second
  writer's object is dropped, fails.  Two calls with the pattern \<^verbatim>\<open>ap\<close> start from the
  empty map.  After both have looked up and compiled, thread 0 holds the object at
  address 0 and thread 1 the object at address 1.  Thread 0 stores first; then thread 1
  stores.  The map ends with the object of thread 1, and the object of thread 0, the
  first writer, is not in it.
\<close>

theorem first_writer_wins_counterexample:
  "threads (run_schedule sample_compile sample_match [0, 1, 0, 1]
      \<lparr>threads = [At_lookup ''ap'' ''apple'', At_lookup ''ap'' ''banana''],
        shared = init_state\<rparr>)
     = [At_store ''ap'' ''apple'' \<lparr>addr = 0, obj = ''ap''\<rparr>,
        At_store ''ap'' ''banana'' \<lparr>addr = 1, obj = ''ap''\<rparr>]
   \<and> fmlookup (cache (shared (run_schedule sample_compile sample_match [0, 1, 0, 1, 0]
        \<lparr>threads = [At_lookup ''ap'' ''apple'', At_lookup ''ap'' ''banana''],
          shared = init_state\<rparr>))) ''ap''
     = Some \<lparr>addr = 0, obj = ''ap''\<rparr>
   \<and> fmlookup (cache (shared (run_schedule sample_compile sample_match [0, 1, 0, 1, 0, 1]
        \<lparr>threads = [At_lookup ''ap'' ''apple'', At_lookup ''ap'' ''banana''],
          shared = init_state\<rparr>))) ''ap''
     = Some \<lparr>addr = 1, obj = ''ap''\<rparr>
   \<and> \<lparr>addr = 0, obj = ''ap''\<rparr> |\<notin>|
       fmran (cache (shared (run_schedule sample_compile sample_match [0, 1, 0, 1, 0, 1]
        \<lparr>threads = [At_lookup ''ap'' ''apple'', At_lookup ''ap'' ''banana''],
          shared = init_state\<rparr>)))"
  by (simp add: step_def sample_compile_def init_state_def fmlookup_ran_iff)

end
